theory Spec2Isabelle
  imports Complex_Main
begin

section \<open>Circuits, Python values and errors\<close>

text \<open>
  The five modules build a circuit by calling gate methods of the external library's
  \<^verbatim>\<open>QuantumCircuit\<close>. The library is opaque here: a circuit is the sequence of gate
  calls made on it, in call order. Qubit and classical-bit arguments are Python integers.
  Rotation angles are Python floats; they are read as the real value of the expression
  that computes them (rounding is not modelled). Where the quantum Fourier transform
  divides by a power of two, the \<^verbatim>\<open>OverflowError\<close> of a power too large for a float is a
  branch of the model. \<open>Gate_append\<close> is \<^verbatim>\<open>circuit.append(gate, qubits)\<close> for a gate
  object made from a circuit, given by the gate sequence of that circuit.
\<close>

datatype gate =
    Gate_h int
  | Gate_x int
  | Gate_z int
  | Gate_i int
  | Gate_cx int int
  | Gate_cp real int int
  | Gate_swap int int
  | Gate_barrier
  | Gate_measure int int
  | Gate_append "gate list" "int list"

type_synonym circuit = "gate list"

text \<open>The exceptions Python itself raises in the code of the repository.\<close>

datatype error =
    AssertionError
  | AttributeError string
  | IndexError
  | ValueError
  | TypeError
  | OverflowError
  | RecursionError

text \<open>
  Circuits are objects: a method that is given a circuit changes it in place, and
  \<^verbatim>\<open>QuantumFourierTransform\<close> keeps one in the instance. Circuit objects therefore live
  in a store, addressed by their position; a reference to a circuit is its address.
  \<open>heap_new\<close> is \<^verbatim>\<open>QuantumCircuit(...)\<close>, a new circuit without gates, and \<open>heap_gate\<close>
  a gate method called on a circuit.
\<close>

type_synonym heap = "circuit list"

definition heap_new :: "heap \<Rightarrow> heap \<times> nat" where
  "heap_new h = (h @ [[]], length h)"

definition heap_gate :: "heap \<Rightarrow> nat \<Rightarrow> gate \<Rightarrow> heap" where
  "heap_gate h c g = h[c := h ! c @ [g]]"

text \<open>
  Four of the five \<^verbatim>\<open>algorithm\<close> methods build their circuit in a local variable: they
  create a new circuit object, add their gates to it and return the reference. Below, each
  of them is first given as the gate sequence it builds; \<open>build_new_circuit\<close> places that
  in the store, gate by gate. When building raises, the new object is left behind,
  referenced by nobody, and what it holds is not tracked.
\<close>

definition build_new_circuit :: "heap \<Rightarrow> error + circuit \<Rightarrow> heap \<times> (error + nat)" where
  "build_new_circuit h built =
     (case heap_new h of (h, circuit) \<Rightarrow>
      (case built of
         Inl e \<Rightarrow> (h, Inl e)
       | Inr gates \<Rightarrow> (foldl (\<lambda>h g. heap_gate h circuit g) h gates, Inr circuit)))"

text \<open>\<^verbatim>\<open>range(n)\<close> for a Python integer: empty when \<open>n \<le> 0\<close>.\<close>

definition py_range :: "int \<Rightarrow> int list" where
  "py_range n = map int [0..<nat n]"

text \<open>
  \<^verbatim>\<open>xs[i]\<close> on a Python sequence: an index from \<open>-len\<close> up to \<open>len - 1\<close> is in range, a
  negative one counting from the end; any other raises \<^verbatim>\<open>IndexError\<close>.
\<close>

definition py_getitem :: "'a list \<Rightarrow> int \<Rightarrow> error + 'a" where
  "py_getitem xs i =
     (if 0 \<le> i \<and> i < int (length xs) then Inr (xs ! nat i)
      else if i < 0 \<and> - int (length xs) \<le> i then Inr (xs ! nat (int (length xs) + i))
      else Inl IndexError)"

text \<open>
  \<^verbatim>\<open>int(c)\<close> for a one-character string \<open>c\<close>: a decimal digit gives its value, any other
  character raises \<^verbatim>\<open>ValueError\<close>.
\<close>

definition py_int :: "char \<Rightarrow> error + int" where
  "py_int c =
     (if c = CHR ''0'' then Inr 0 else if c = CHR ''1'' then Inr 1
      else if c = CHR ''2'' then Inr 2 else if c = CHR ''3'' then Inr 3
      else if c = CHR ''4'' then Inr 4 else if c = CHR ''5'' then Inr 5
      else if c = CHR ''6'' then Inr 6 else if c = CHR ''7'' then Inr 7
      else if c = CHR ''8'' then Inr 8 else if c = CHR ''9'' then Inr 9
      else Inl ValueError)"

text \<open>
  An instance's attributes by name (its \<^verbatim>\<open>__dict__\<close>): reading a name that was never
  assigned raises \<^verbatim>\<open>AttributeError\<close>.
\<close>

datatype pyval = PyInt int | PyStr string | PyFloat real | PyCircuit nat

type_synonym pyobject = "(string \<times> pyval) list"

definition py_getattr :: "pyobject \<Rightarrow> string \<Rightarrow> error + pyval" where
  "py_getattr obj name =
     (case map_of obj name of None \<Rightarrow> Inl (AttributeError name) | Some v \<Rightarrow> Inr v)"

text \<open>
  \<^verbatim>\<open>xs.index(v)\<close>: the first position of \<open>v\<close>, or \<^verbatim>\<open>ValueError\<close> when \<open>v\<close> does not
  occur.
\<close>

fun py_index :: "'a list \<Rightarrow> 'a \<Rightarrow> error + nat" where
  "py_index [] v = Inl ValueError"
| "py_index (x # xs) v =
     (if x = v then Inr 0
      else (case py_index xs v of Inl e \<Rightarrow> Inl e | Inr k \<Rightarrow> Inr (Suc k)))"

text \<open>
  \<^verbatim>\<open>s.rfind(c)\<close>: the last position of the character \<open>c\<close>, or \<open>-1\<close>. The scan goes left
  to right and keeps the last hit.
\<close>

fun rfind_from :: "string \<Rightarrow> char \<Rightarrow> int \<Rightarrow> int \<Rightarrow> int" where
  "rfind_from [] c i found = found"
| "rfind_from (x # xs) c i found = rfind_from xs c (i + 1) (if x = c then i else found)"

definition py_rfind :: "string \<Rightarrow> char \<Rightarrow> int" where
  "py_rfind s c = rfind_from s c 0 (- 1)"

text \<open>\<^verbatim>\<open>enumerate(xs)\<close>: each element with its position.\<close>

definition py_enumerate :: "'a list \<Rightarrow> (int \<times> 'a) list" where
  "py_enumerate xs = zip (py_range (int (length xs))) xs"

text \<open>
  \<^verbatim>\<open>format(b, '0' + str(width) + 'b')\<close> for \<open>b \<ge> 0\<close>: the binary digits of \<open>b\<close>, most
  significant first, padded with zeros on the left up to \<open>width\<close> characters.
\<close>

fun bin_digits :: "nat \<Rightarrow> string" where
  "bin_digits b =
     (if b < 2 then [if b = 0 then CHR ''0'' else CHR ''1'']
      else bin_digits (b div 2) @ [if b mod 2 = 0 then CHR ''0'' else CHR ''1''])"

declare bin_digits.simps [simp del]

definition py_format_bin :: "nat \<Rightarrow> nat \<Rightarrow> string" where
  "py_format_bin b width =
     replicate (width - length (bin_digits b)) (CHR ''0'') @ bin_digits b"

text \<open>
  The library's backend filter: \<^verbatim>\<open>provider.backends(filters=f)\<close> calls the predicate
  \<open>f\<close> on each backend the provider offers, in order, and keeps those it accepts. An
  exception raised by the predicate ends the call.
\<close>

record backend =
  n_qubits :: int
  simulator :: bool
  operational :: bool

fun py_filter :: "('a \<Rightarrow> error + bool) \<Rightarrow> 'a list \<Rightarrow> error + 'a list" where
  "py_filter f [] = Inr []"
| "py_filter f (x # xs) =
     (case f x of Inl e \<Rightarrow> Inl e | Inr keep \<Rightarrow>
      (case py_filter f xs of Inl e \<Rightarrow> Inl e | Inr ys \<Rightarrow>
         Inr (if keep then x # ys else ys)))"

text \<open>
  The filter lambda shared by every \<^verbatim>\<open>run_quantum_hardware\<close>:
  \<^verbatim>\<open>x.configuration().n_qubits >= need and not x.configuration().simulator and
  x.status().operational == True\<close>, where \<open>need\<close> is computed from an attribute of
  \<open>self\<close> read first. The attribute's value must be a number.
\<close>

definition backend_filter :: "pyobject \<Rightarrow> string \<Rightarrow> int \<Rightarrow> backend \<Rightarrow> error + bool" where
  "backend_filter attributes name extra x =
     (case py_getattr attributes name of
        Inl e \<Rightarrow> Inl e
      | Inr (PyInt v) \<Rightarrow> Inr (n_qubits x \<ge> v + extra \<and> \<not> simulator x \<and> operational x)
      | Inr _ \<Rightarrow> Inl TypeError)"


section \<open>Bernstein-Vazirani (BV\_qiskit.py)\<close>

record BernsteinVazirani =
  bv_n :: int
  bv_bitstring :: string

text \<open>\<^verbatim>\<open>__init__\<close> assigns \<^verbatim>\<open>self.n\<close> and \<^verbatim>\<open>self.bitstring\<close>, and nothing else.\<close>

definition BV_init :: "int \<Rightarrow> string \<Rightarrow> BernsteinVazirani" where
  "BV_init num_qubits bitstring = \<lparr>bv_n = num_qubits, bv_bitstring = bitstring\<rparr>"

definition BV_attributes :: "BernsteinVazirani \<Rightarrow> pyobject" where
  "BV_attributes self = [(''n'', PyInt (bv_n self)), (''bitstring'', PyStr (bv_bitstring self))]"

text \<open>
  The oracle loop of \<^verbatim>\<open>algorithm\<close>: \<open>s\<close> is the reversed bit string, and \<open>s[qubit]\<close> can
  raise \<^verbatim>\<open>IndexError\<close>.
\<close>

fun BV_oracle_loop :: "string \<Rightarrow> int \<Rightarrow> circuit \<Rightarrow> int list \<Rightarrow> error + circuit" where
  "BV_oracle_loop s n circuit [] = Inr circuit"
| "BV_oracle_loop s n circuit (qubit # rest) =
     (case py_getitem s qubit of
        Inl e \<Rightarrow> Inl e
      | Inr ch \<Rightarrow>
          BV_oracle_loop s n
            (if ch = CHR ''0'' then circuit @ [Gate_i qubit] else circuit @ [Gate_cx qubit n])
            rest)"

text \<open>
  \<^verbatim>\<open>BernsteinVazirani.algorithm\<close>. The flag \<open>draw\<close> only prints the circuit. The circuit
  has \<open>n + 1\<close> qubits, the output qubit being qubit \<open>n\<close>.
\<close>

definition BV_algorithm :: "BernsteinVazirani \<Rightarrow> bool \<Rightarrow> error + circuit" where
  "BV_algorithm self draw =
     (let n = bv_n self;
          circuit = [];
          circuit = circuit @ [Gate_h n];
          circuit = circuit @ [Gate_z n];
          circuit = foldl (\<lambda>c qubit. c @ [Gate_h qubit]) circuit (py_range n);
          circuit = circuit @ [Gate_barrier];
          s = rev (bv_bitstring self)
      in (case BV_oracle_loop s n circuit (py_range n) of
            Inl e \<Rightarrow> Inl e
          | Inr circuit \<Rightarrow>
              (let circuit = circuit @ [Gate_barrier];
                   circuit = foldl (\<lambda>c qubit. c @ [Gate_h qubit]) circuit (py_range n);
                   circuit = foldl (\<lambda>c qubit. c @ [Gate_measure qubit qubit]) circuit (py_range n)
               in Inr circuit)))"


text \<open>
  \<^verbatim>\<open>BernsteinVazirani.run_quantum_hardware\<close>, up to the choice of the backends handed to
  \<^verbatim>\<open>least_busy\<close>: the filter lambda reads \<^verbatim>\<open>self.num_bits\<close> and adds one. What follows in
  the method (transpiling, running and monitoring the job) is the library's work on the
  backend it chose. \<open>backends\<close> are the backends the provider offers.
\<close>

definition BV_run_quantum_hardware :: "BernsteinVazirani \<Rightarrow> backend list \<Rightarrow> error + backend list" where
  "BV_run_quantum_hardware self backends =
     py_filter (backend_filter (BV_attributes self) ''num_bits'' 1) backends"


section \<open>Deutsch-Jozsa (DJ\_qiskit.py)\<close>

record DeutschJozsa =
  dj_type :: string
  dj_num_bits :: int

text \<open>\<^verbatim>\<open>DeutschJozsa.__init__\<close>: the assertion on \<open>type\<close>, then the two assignments.\<close>

definition DJ_init :: "string \<Rightarrow> int \<Rightarrow> error + DeutschJozsa" where
  "DJ_init type num_bits =
     (if type = ''constant'' \<or> type = ''balanced''
      then Inr \<lparr>dj_type = type, dj_num_bits = num_bits\<rparr>
      else Inl AssertionError)"

definition DJ_attributes :: "DeutschJozsa \<Rightarrow> pyobject" where
  "DJ_attributes self = [(''type'', PyStr (dj_type self)), (''num_bits'', PyInt (dj_num_bits self))]"

text \<open>
  \<^verbatim>\<open>DeutschJozsa.oracle\<close>. The method draws from numpy's global random generator:
  \<^verbatim>\<open>np.random.randint(2)\<close> for the constant oracle and
  \<^verbatim>\<open>np.random.randint(1, 2**num_bits)\<close> for the balanced one. The values drawn are the
  arguments \<open>output\<close> and \<open>b\<close> here. The result is the gate sequence of the circuit that
  \<^verbatim>\<open>to_gate\<close> wraps. The library draws \<open>b\<close> from \<open>1\<close> up to \<open>2\<^sup>n - 1\<close> (and refuses when
  there is no such number, that is when \<open>num_bits \<le> 0\<close>). A negative \<open>num_bits\<close> makes the
  format specification invalid.
\<close>

definition DJ_oracle :: "DeutschJozsa \<Rightarrow> int \<Rightarrow> nat \<Rightarrow> error + circuit" where
  "DJ_oracle self output b =
     (let num_bits = dj_num_bits self;
          circuit = [];
          circuit = (if dj_type self = ''constant'' \<and> output = 1
                     then circuit @ [Gate_x num_bits] else circuit)
      in if dj_type self = ''balanced'' then
           (if num_bits < 0 then Inl ValueError
            else
              (let binary_string = py_format_bin b (nat num_bits);
                   place_x = (\<lambda>c qubit. if binary_string ! nat qubit = CHR ''1''
                                          then c @ [Gate_x qubit] else c);
                   circuit = foldl place_x circuit (py_range (int (length binary_string)));
                   circuit = foldl (\<lambda>c qubit. c @ [Gate_cx qubit num_bits]) circuit (py_range num_bits);
                   circuit = foldl place_x circuit (py_range (int (length binary_string)))
               in Inr circuit))
         else Inr circuit)"



text \<open>
  For stating what the balanced oracle looks like: the X gates it places for a binary
  string, and the number a binary string stands for (read with an accumulator).
\<close>

definition x_gates :: "string \<Rightarrow> circuit" where
  "x_gates s = map Gate_x (filter (\<lambda>q. s ! nat q = CHR ''1'') (py_range (int (length s))))"

fun bin_value :: "string \<Rightarrow> nat \<Rightarrow> nat" where
  "bin_value [] acc = acc"
| "bin_value (c # cs) acc = bin_value cs (2 * acc + (if c = CHR ''1'' then 1 else 0))"

text \<open>\<^verbatim>\<open>DeutschJozsa.run_quantum_hardware\<close>: the filter reads \<^verbatim>\<open>self.num_bits\<close>.\<close>

definition DJ_run_quantum_hardware :: "DeutschJozsa \<Rightarrow> backend list \<Rightarrow> error + backend list" where
  "DJ_run_quantum_hardware self backends =
     py_filter (backend_filter (DJ_attributes self) ''num_bits'' 1) backends"


section \<open>Quantum Fourier Transform (QFT\_qiskit.py)\<close>

record QuantumFourierTransform =
  qft_n :: int
  qft_circuit :: nat

definition QFT_init :: "heap \<Rightarrow> int \<Rightarrow> heap \<times> QuantumFourierTransform" where
  "QFT_init h num_qubits =
     (let (h, c) = heap_new h in (h, \<lparr>qft_n = num_qubits, qft_circuit = c\<rparr>))"

definition QFT_attributes :: "QuantumFourierTransform \<Rightarrow> pyobject" where
  "QFT_attributes self = [(''n'', PyInt (qft_n self)), (''circuit'', PyCircuit (qft_circuit self))]"

text \<open>
  \<^verbatim>\<open>np.pi/(2**e)\<close> for an exponent \<open>e \<ge> 0\<close>: the power is a Python integer, and the
  division converts it to a float, which raises \<^verbatim>\<open>OverflowError\<close> from \<open>2\<^sup>1\<^sup>0\<^sup>2\<^sup>4\<close> on.
  \<^verbatim>\<open>rotations\<close> calls it with \<open>e \<ge> 1\<close> only.
\<close>

definition py_pi_div_pow2 :: "int \<Rightarrow> error + real" where
  "py_pi_div_pow2 e = (if 1024 \<le> e then Inl OverflowError else Inr (pi / 2 ^ nat e))"

text \<open>
  The loop of \<^verbatim>\<open>rotations\<close> over \<^verbatim>\<open>range(n)\<close>: the angle is computed before the gate is
  added, and an exception ends the loop with the gates added so far left in the circuit.
\<close>

fun rotations_cp_loop :: "heap \<Rightarrow> nat \<Rightarrow> int \<Rightarrow> int list \<Rightarrow> heap \<times> (error + unit)" where
  "rotations_cp_loop h circuit n [] = (h, Inr ())"
| "rotations_cp_loop h circuit n (qubit # rest) =
     (case py_pi_div_pow2 (n - qubit) of
        Inl e \<Rightarrow> (h, Inl e)
      | Inr angle \<Rightarrow>
          rotations_cp_loop (heap_gate h circuit (Gate_cp angle qubit n)) circuit n rest)"

text \<open>
  \<^verbatim>\<open>rotations(circuit, n)\<close> calls itself with \<open>n - 1\<close> until \<open>n = 0\<close>; it returns the
  reference it was given. The interpreter bounds the depth of recursion
  (\<^verbatim>\<open>sys.getrecursionlimit()\<close>, 1000 frames unless changed): \<open>frames\<close> is the number of
  further nested calls of \<^verbatim>\<open>rotations\<close> that still fit under that limit, and the call
  that does not fit raises \<^verbatim>\<open>RecursionError\<close>. The result is the store as the call
  leaves it, with the reference returned or the exception raised. The library's own
  checks of the qubit indices are not part of the model.
\<close>

function rotations :: "nat \<Rightarrow> heap \<Rightarrow> nat \<Rightarrow> int \<Rightarrow> heap \<times> (error + nat)" where
  "rotations frames h circuit n =
     (if n = 0 then (h, Inr circuit)
      else
        (case rotations_cp_loop (heap_gate h circuit (Gate_h (n - 1))) circuit (n - 1)
                (py_range (n - 1)) of
           (h, Inl e) \<Rightarrow> (h, Inl e)
         | (h, Inr u) \<Rightarrow>
             if frames = 0 then (h, Inl RecursionError)
             else rotations (frames - 1) h circuit (n - 1)))"
  by pat_completeness auto
termination
  by (relation "measure (\<lambda>(frames, h, circuit, n). frames)") auto

declare rotations.simps [simp del]

definition swap_registers :: "heap \<Rightarrow> nat \<Rightarrow> int \<Rightarrow> heap \<times> nat" where
  "swap_registers h circuit n =
     (foldl (\<lambda>h qubit. heap_gate h circuit (Gate_swap qubit (n - qubit - 1))) h (py_range (n div 2)),
      circuit)"

text \<open>
  \<^verbatim>\<open>QuantumFourierTransform.algorithm\<close> passes \<^verbatim>\<open>self.circuit\<close> to both methods and
  returns the reference it gets back. The flag \<open>draw\<close> only prints. \<open>frames\<close> is the room
  under the recursion limit when \<^verbatim>\<open>rotations\<close> is called.
\<close>

definition QFT_algorithm ::
  "nat \<Rightarrow> heap \<Rightarrow> QuantumFourierTransform \<Rightarrow> bool \<Rightarrow> heap \<times> (error + nat)" where
  "QFT_algorithm frames h self draw =
     (case rotations frames h (qft_circuit self) (qft_n self) of
        (h, Inl e) \<Rightarrow> (h, Inl e)
      | (h, Inr circuit) \<Rightarrow>
          (case swap_registers h circuit (qft_n self) of (h, circuit) \<Rightarrow> (h, Inr circuit)))"



text \<open>\<^verbatim>\<open>QuantumFourierTransform.run_quantum_hardware\<close>: the filter reads \<^verbatim>\<open>self.n\<close>.\<close>

definition QFT_run_quantum_hardware :: "QuantumFourierTransform \<Rightarrow> backend list \<Rightarrow> error + backend list" where
  "QFT_run_quantum_hardware self backends =
     py_filter (backend_filter (QFT_attributes self) ''n'' 0) backends"

text \<open>
  Gate sequences for stating what the methods emit. \<open>rotation_gates n\<close> is the rotation
  part alone. \<open>textbook_qft n\<close> is the
  gate sequence of the quantum Fourier transform as the textbook gives it: for
  \<open>k\<close> from \<open>n - 1\<close> down to \<open>0\<close>, a Hadamard gate on qubit \<open>k\<close> and then, for each
  \<open>q < k\<close>, a controlled phase of angle \<open>\<pi> / 2\<^sup>k\<^sup>-\<^sup>q\<close> with control \<open>q\<close> and target \<open>k\<close>;
  afterwards the swaps of qubit \<open>q\<close> with qubit \<open>n - 1 - q\<close> for each \<open>q < n div 2\<close>.
\<close>

definition rotation_gates :: "int \<Rightarrow> circuit" where
  "rotation_gates n =
     concat (map (\<lambda>k. Gate_h k # map (\<lambda>q. Gate_cp (pi / 2 ^ nat (k - q)) q k) (py_range k))
                 (rev (py_range n)))"

definition textbook_qft :: "int \<Rightarrow> circuit" where
  "textbook_qft n =
     concat (map (\<lambda>k. Gate_h k # map (\<lambda>q. Gate_cp (pi / 2 ^ nat (k - q)) q k) (py_range k))
                 (rev (py_range n)))
     @ map (\<lambda>q. Gate_swap q (n - 1 - q)) (py_range (n div 2))"


section \<open>Quantum Phase Estimation (QPE\_qiskit.py)\<close>

record QuantumPhaseEstimation =
  qpe_n_counting_qubits :: int
  qpe_angle :: real

definition QPE_init :: "int \<Rightarrow> real \<Rightarrow> QuantumPhaseEstimation" where
  "QPE_init n_counting_qubits angle =
     \<lparr>qpe_n_counting_qubits = n_counting_qubits, qpe_angle = 2 * pi * angle\<rparr>"

definition QPE_attributes :: "QuantumPhaseEstimation \<Rightarrow> pyobject" where
  "QPE_attributes self =
     [(''n_counting_qubits'', PyInt (qpe_n_counting_qubits self)), (''angle'', PyFloat (qpe_angle self))]"

definition qft_inverse :: "circuit \<Rightarrow> int \<Rightarrow> circuit" where
  "qft_inverse circuit n =
     (let circuit = foldl (\<lambda>c qubit. c @ [Gate_swap qubit (n - qubit - 1)]) circuit (py_range (n div 2));
          circuit = foldl (\<lambda>c j.
                       foldl (\<lambda>c m. c @ [Gate_cp (- pi / 2 ^ nat (j - m)) m j]) c (py_range j)
                       @ [Gate_h j])
                     circuit (py_range n)
      in circuit)"

text \<open>
  The gates \<^verbatim>\<open>qft_inverse\<close> adds, written out: the swaps, and then for each \<open>j < n\<close> the
  controlled phases of angle \<open>- \<pi> / 2\<^sup>j\<^sup>-\<^sup>m\<close> for \<open>m < j\<close> followed by a Hadamard gate.
\<close>

definition qft_inverse_gates :: "int \<Rightarrow> circuit" where
  "qft_inverse_gates n =
     map (\<lambda>q. Gate_swap q (n - 1 - q)) (py_range (n div 2))
     @ concat (map (\<lambda>j. map (\<lambda>m. Gate_cp (- pi / 2 ^ nat (j - m)) m j) (py_range j) @ [Gate_h j])
                   (py_range n))"

text \<open>
  The controlled-U loop of \<^verbatim>\<open>algorithm\<close>: the state is the circuit and the variable
  \<^verbatim>\<open>repetitions\<close>, doubled at the end of each round.
\<close>

definition controlled_u_loop :: "real \<Rightarrow> int \<Rightarrow> circuit \<times> int \<Rightarrow> int list \<Rightarrow> circuit \<times> int" where
  "controlled_u_loop angle n state counting_qubits =
     foldl (\<lambda>(circuit, repetitions) counting_qubit.
              (foldl (\<lambda>c _. c @ [Gate_cp angle counting_qubit n]) circuit (py_range repetitions),
               repetitions * 2))
           state counting_qubits"

definition QPE_algorithm :: "QuantumPhaseEstimation \<Rightarrow> bool \<Rightarrow> int \<Rightarrow> bool \<Rightarrow> circuit" where
  "QPE_algorithm self eigenstate_x repetitions draw =
     (let n = qpe_n_counting_qubits self;
          circuit = [];
          circuit = foldl (\<lambda>c qubit. c @ [Gate_h qubit]) circuit (py_range n);
          circuit = (if eigenstate_x then circuit @ [Gate_x n] else circuit);
          (circuit, repetitions) = controlled_u_loop (qpe_angle self) n (circuit, repetitions) (py_range n);
          circuit = circuit @ [Gate_barrier];
          circuit = qft_inverse circuit n;
          circuit = circuit @ [Gate_barrier];
          circuit = foldl (\<lambda>c qubit. c @ [Gate_measure qubit qubit]) circuit (py_range n)
      in circuit)"


text \<open>\<^verbatim>\<open>QuantumPhaseEstimation.run_quantum_hardware\<close>: the filter reads \<^verbatim>\<open>self.n\<close>.\<close>

definition QPE_run_quantum_hardware :: "QuantumPhaseEstimation \<Rightarrow> backend list \<Rightarrow> error + backend list" where
  "QPE_run_quantum_hardware self backends =
     py_filter (backend_filter (QPE_attributes self) ''n'' 0) backends"


section \<open>Simon's problem (Simon\_qiskit.py)\<close>

record SimonProblem =
  simon_b :: string
  simon_n :: nat

definition Simon_init :: "string \<Rightarrow> SimonProblem" where
  "Simon_init bitstring = \<lparr>simon_b = bitstring, simon_n = length bitstring\<rparr>"

definition Simon_attributes :: "SimonProblem \<Rightarrow> pyobject" where
  "Simon_attributes self = [(''b'', PyStr (simon_b self)), (''n'', PyInt (int (simon_n self)))]"

text \<open>
  One round of the while loop of \<^verbatim>\<open>oracle\<close> that realises the permutation. The state is
  the index \<open>i\<close>, the list \<^verbatim>\<open>initial_position\<close> and the circuit. The simultaneous
  assignment reads both entries before it writes them.
\<close>

definition permute_step ::
  "nat \<Rightarrow> nat list \<Rightarrow> nat \<times> nat list \<times> circuit \<Rightarrow> error + nat \<times> nat list \<times> circuit" where
  "permute_step n permutation state =
     (case state of (i, initial_position, circuit) \<Rightarrow>
      (case py_getitem initial_position (int i) of Inl e \<Rightarrow> Inl e | Inr here \<Rightarrow>
       (case py_getitem permutation (int i) of Inl e \<Rightarrow> Inl e | Inr wanted \<Rightarrow>
          if here \<noteq> wanted then
            (case py_index permutation here of Inl e \<Rightarrow> Inl e | Inr k \<Rightarrow>
             (case py_getitem initial_position (int k) of Inl e \<Rightarrow> Inl e | Inr there \<Rightarrow>
                Inr (i, initial_position[i := there, k := here],
                     circuit @ [Gate_swap (int (n + i)) (int (n + k))])))
          else Inr (i + 1, initial_position, circuit))))"

text \<open>The while loop: it runs as long as \<open>i < n\<close>. Not returning is the value \<open>None\<close>.\<close>

partial_function (option) permute_loop ::
  "nat \<Rightarrow> nat list \<Rightarrow> nat \<times> nat list \<times> circuit \<Rightarrow> (error + nat \<times> nat list \<times> circuit) option" where
  "permute_loop n permutation state =
     (if fst state < n then
        (case permute_step n permutation state of
           Inl e \<Rightarrow> Some (Inl e)
         | Inr state' \<Rightarrow> permute_loop n permutation state')
      else Some (Inr state))"

text \<open>
  \<^verbatim>\<open>SimonProblem.oracle\<close>. The method draws from numpy's global random generator: the
  permutation (\<^verbatim>\<open>np.random.permutation(n)\<close>) and one number per qubit of the second
  register (\<^verbatim>\<open>np.random.random()\<close>). The values drawn are the arguments \<open>permutation\<close>
  and \<open>flips\<close> here, \<open>flips i\<close> being the number drawn in round \<open>i\<close>.
\<close>

definition Simon_oracle ::
  "SimonProblem \<Rightarrow> circuit \<Rightarrow> nat list \<Rightarrow> (nat \<Rightarrow> real) \<Rightarrow> (error + circuit) option" where
  "Simon_oracle self circuit permutation flips =
     (let n = simon_n self;
          circuit = foldl (\<lambda>c i. c @ [Gate_cx i (int n + i)]) circuit (py_range (int n));
          j = py_rfind (simon_b self) (CHR ''1'');
          circuit = foldl (\<lambda>c (idx, char).
                       if char = CHR ''1'' \<and> j \<noteq> - 1 then c @ [Gate_cx j (int n + idx)] else c)
                     circuit (py_enumerate (simon_b self));
          initial_position = [0..<n]
      in (case permute_loop n permutation (0, initial_position, circuit) of
            None \<Rightarrow> None
          | Some (Inl e) \<Rightarrow> Some (Inl e)
          | Some (Inr (i, initial_position, circuit)) \<Rightarrow>
              Some (Inr (foldl (\<lambda>c i. if flips i > 1 / 2 then c @ [Gate_x (int (n + i))] else c)
                           circuit [0..<n]))))"



text \<open>
  For the proofs about the loop: the positions below \<open>n\<close> where \<^verbatim>\<open>initial_position\<close>
  differs from the permutation. Two sequences of draws for the flips: every number
  drawn is 0, and every number drawn is a quarter.
\<close>

definition misplaced :: "nat \<Rightarrow> nat list \<Rightarrow> nat list \<Rightarrow> nat set" where
  "misplaced n permutation initial_position =
     {j. j < n \<and> initial_position ! j \<noteq> permutation ! j}"

definition no_flips :: "nat \<Rightarrow> real" where
  "no_flips i = 0"

definition quarter_flips :: "nat \<Rightarrow> real" where
  "quarter_flips i = 1 / 4"

text \<open>
  \<^verbatim>\<open>SimonProblem.bdotz\<close>: the loop over \<^verbatim>\<open>range(len(b))\<close> with its accumulator. Each
  round reads \<open>b[i]\<close>, converts it, reads \<open>z[i]\<close>, converts it, and adds the product.
\<close>

fun bdotz_loop :: "string \<Rightarrow> string \<Rightarrow> int list \<Rightarrow> int \<Rightarrow> error + int" where
  "bdotz_loop b z [] accum = Inr accum"
| "bdotz_loop b z (i # rest) accum =
     (case py_getitem b i of Inl e \<Rightarrow> Inl e | Inr bi \<Rightarrow>
      (case py_int bi of Inl e \<Rightarrow> Inl e | Inr x \<Rightarrow>
       (case py_getitem z i of Inl e \<Rightarrow> Inl e | Inr zi \<Rightarrow>
        (case py_int zi of Inl e \<Rightarrow> Inl e | Inr y \<Rightarrow>
           bdotz_loop b z rest (accum + x * y)))))"

definition bdotz :: "string \<Rightarrow> string \<Rightarrow> error + int" where
  "bdotz b z =
     (case bdotz_loop b z (py_range (int (length b))) 0 of
        Inl e \<Rightarrow> Inl e
      | Inr accum \<Rightarrow> Inr (accum mod 2))"

text \<open>\<^verbatim>\<open>SimonProblem.run_quantum_hardware\<close>: the filter reads \<^verbatim>\<open>self.n\<close>.\<close>

definition Simon_run_quantum_hardware :: "SimonProblem \<Rightarrow> backend list \<Rightarrow> error + backend list" where
  "Simon_run_quantum_hardware self backends =
     py_filter (backend_filter (Simon_attributes self) ''n'' 0) backends"


section \<open>Bit strings\<close>

text \<open>A bit string holds the characters 0 and 1 only; \<open>bit_of\<close> is the value of a bit.\<close>

definition bit_of :: "char \<Rightarrow> int" where
  "bit_of c = (if c = CHR ''1'' then 1 else 0)"

definition is_bitstring :: "string \<Rightarrow> bool" where
  "is_bitstring s = list_all (\<lambda>c. c = CHR ''0'' \<or> c = CHR ''1'') s"


section \<open>Loops that only add gates\<close>

lemma foldl_append_gates: "foldl (\<lambda>c q. c @ [g q]) c qs = c @ map g qs"
  by (induction qs arbitrary: c) simp_all

lemma foldl_append_const: "foldl (\<lambda>c _. c @ [g]) c qs = c @ replicate (length qs) g"
  by (induction qs arbitrary: c) (simp_all add: replicate_app_Cons_same)

lemma foldl_append_block:
  assumes "\<And>c j. f c j = c @ bs j"
  shows "foldl (\<lambda>c j. f c j @ [g j]) c qs = c @ concat (map (\<lambda>j. bs j @ [g j]) qs)"
  by (induction qs arbitrary: c) (simp_all add: assms)

lemma py_range_Suc: "py_range (int (Suc k)) = py_range (int k) @ [int k]"
  unfolding py_range_def nat_int by simp

lemma py_range_0: "py_range 0 = []"
  by (simp add: py_range_def)

lemma py_range_nat: "py_range n = py_range (int (nat n))"
  by (simp add: py_range_def)

lemma length_py_range: "length (py_range n) = nat n"
  by (simp add: py_range_def)

lemma py_getitem_nat: "i < length xs \<Longrightarrow> py_getitem xs (int i) = Inr (xs ! i)"
  by (simp add: py_getitem_def)

lemma is_bitstring_nth:
  "is_bitstring s \<Longrightarrow> i < length s \<Longrightarrow> s ! i = CHR ''0'' \<or> s ! i = CHR ''1''"
  by (simp add: is_bitstring_def list_all_length)


section \<open>Errors raised by the repository's own code\<close>

lemma BV_run_quantum_hardware_raises:
  "backends \<noteq> [] \<Longrightarrow> BV_run_quantum_hardware self backends = Inl (AttributeError ''num_bits'')"
  by (cases backends)
     (simp_all add: BV_run_quantum_hardware_def backend_filter_def py_getattr_def BV_attributes_def)

lemma QPE_run_quantum_hardware_raises:
  "backends \<noteq> [] \<Longrightarrow> QPE_run_quantum_hardware self backends = Inl (AttributeError ''n'')"
  by (cases backends)
     (simp_all add: QPE_run_quantum_hardware_def backend_filter_def py_getattr_def QPE_attributes_def)

text \<open>
  Claim C1 says that the assertion of the Deutsch-Jozsa constructor is the only failure of
  the repository's own code. It is not: the filter of
  \<^verbatim>\<open>BernsteinVazirani.run_quantum_hardware\<close> reads \<^verbatim>\<open>self.num_bits\<close> and that of
  \<^verbatim>\<open>QuantumPhaseEstimation.run_quantum_hardware\<close> reads \<^verbatim>\<open>self.n\<close>, attributes their
  constructors never assign. On well-formed instances, with one backend on offer, both
  calls end in \<^verbatim>\<open>AttributeError\<close>, while the same call on a Deutsch-Jozsa instance, whose
  constructor does assign \<^verbatim>\<open>num_bits\<close>, goes through.
\<close>

theorem run_quantum_hardware_attribute_errors:
  "BV_run_quantum_hardware (BV_init 3 ''101'')
      [\<lparr>n_qubits = 5, simulator = False, operational = True\<rparr>] = Inl (AttributeError ''num_bits'')
   \<and> QPE_run_quantum_hardware (QPE_init 3 (1 / 8))
      [\<lparr>n_qubits = 5, simulator = False, operational = True\<rparr>] = Inl (AttributeError ''n'')
   \<and> DJ_init ''balanced'' 3 = Inr \<lparr>dj_type = ''balanced'', dj_num_bits = 3\<rparr>
   \<and> DJ_run_quantum_hardware \<lparr>dj_type = ''balanced'', dj_num_bits = 3\<rparr>
      [\<lparr>n_qubits = 5, simulator = False, operational = True\<rparr>]
      = Inr [\<lparr>n_qubits = 5, simulator = False, operational = True\<rparr>]"
  by (simp add: BV_run_quantum_hardware_def QPE_run_quantum_hardware_def DJ_run_quantum_hardware_def
      backend_filter_def py_getattr_def BV_attributes_def QPE_attributes_def DJ_attributes_def
      BV_init_def QPE_init_def DJ_init_def)

text \<open>
  Claim C2: \<^verbatim>\<open>DeutschJozsa.__init__\<close> fails its assertion if and only if \<open>type\<close> is neither
  \<open>constant\<close> nor \<open>balanced\<close>; otherwise the instance holds \<open>type\<close> and \<open>num_bits\<close> as
  they were passed.
\<close>

theorem DJ_init_assertion:
  "(DJ_init type num_bits = Inl AssertionError) = (type \<noteq> ''constant'' \<and> type \<noteq> ''balanced'')
   \<and> (type = ''constant'' \<or> type = ''balanced'' \<longrightarrow>
        DJ_init type num_bits = Inr \<lparr>dj_type = type, dj_num_bits = num_bits\<rparr>)"
  by (simp add: DJ_init_def)

theorem DJ_init_assertion_witness:
  "DJ_init ''constant'' 3 = Inr \<lparr>dj_type = ''constant'', dj_num_bits = 3\<rparr>
   \<and> DJ_init ''balanced'' 0 = Inr \<lparr>dj_type = ''balanced'', dj_num_bits = 0\<rparr>
   \<and> DJ_init ''Constant'' 3 = Inl AssertionError"
  using DJ_init_assertion [of "''constant''" 3] DJ_init_assertion [of "''balanced''" 0]
    DJ_init_assertion [of "''Constant''" 3]
  by simp


section \<open>Bernstein-Vazirani: the oracle layer\<close>

lemma BV_oracle_loop_in_range:
  "\<forall>q\<in>set qs. q < length s \<Longrightarrow>
   BV_oracle_loop s n circuit (map int qs) =
     Inr (circuit @ map (\<lambda>q. if s ! q = CHR ''0'' then Gate_i (int q) else Gate_cx (int q) n) qs)"
  by (induction qs arbitrary: circuit) (simp_all add: py_getitem_nat)

text \<open>
  Claim C5: for a bit string \<open>s\<close> of length \<open>n\<close>, the oracle layer of
  \<^verbatim>\<open>BernsteinVazirani.algorithm\<close> reads the bit string backwards: on input qubit \<open>i\<close> it
  puts a CNOT onto the output qubit \<open>n\<close> when \<open>s[n-1-i]\<close> is 1 and an identity gate
  otherwise. The theorem gives the whole circuit, the oracle layer standing between the
  two barriers.
\<close>

theorem BV_oracle_layer:
  assumes "int (length s) = n" and "is_bitstring s"
  shows "BV_algorithm (BV_init n s) draw =
    Inr ([Gate_h n, Gate_z n] @ map Gate_h (py_range n) @ [Gate_barrier]
         @ map (\<lambda>i. if s ! nat (n - 1 - i) = CHR ''1'' then Gate_cx i n else Gate_i i) (py_range n)
         @ [Gate_barrier] @ map Gate_h (py_range n) @ map (\<lambda>q. Gate_measure q q) (py_range n))"
proof -
  have len: "nat n = length s" using assms(1) by auto
  have loop: "BV_oracle_loop (rev s) n c (py_range n) =
      Inr (c @ map (\<lambda>q. if rev s ! q = CHR ''0'' then Gate_i (int q) else Gate_cx (int q) n) [0..<nat n])" for c
    unfolding py_range_def by (rule BV_oracle_loop_in_range) (simp add: len)
  have layer: "map (\<lambda>q. if rev s ! q = CHR ''0'' then Gate_i (int q) else Gate_cx (int q) n) [0..<nat n]
      = map (\<lambda>i. if s ! nat (n - 1 - i) = CHR ''1'' then Gate_cx i n else Gate_i i) (py_range n)"
  proof -
    have "(if rev s ! q = CHR ''0'' then Gate_i (int q) else Gate_cx (int q) n)
        = (if s ! nat (n - 1 - int q) = CHR ''1'' then Gate_cx (int q) n else Gate_i (int q))"
      if "q < nat n" for q
    proof -
      from that len have q: "q < length s" by simp
      have idx: "nat (n - 1 - int q) = length s - Suc q" using assms(1) q by auto
      have "length s - Suc q < length s" using q by simp
      from is_bitstring_nth [OF assms(2) this] show ?thesis
        by (auto simp: rev_nth [OF q] idx)
    qed
    then show ?thesis by (simp add: py_range_def comp_def)
  qed
  show ?thesis
    by (simp add: BV_algorithm_def BV_init_def Let_def foldl_append_gates loop layer)
qed

theorem BV_oracle_layer_witness:
  "int (length ''110'') = 3 \<and> is_bitstring ''110'' \<and>
   BV_algorithm (BV_init 3 ''110'') False =
    Inr [Gate_h 3, Gate_z 3, Gate_h 0, Gate_h 1, Gate_h 2, Gate_barrier,
         Gate_i 0, Gate_cx 1 3, Gate_cx 2 3,
         Gate_barrier, Gate_h 0, Gate_h 1, Gate_h 2,
         Gate_measure 0 0, Gate_measure 1 1, Gate_measure 2 2]"
  using BV_oracle_layer [of "''110''" 3 False]
  by (simp add: is_bitstring_def py_range_def upt_rec)


section \<open>Quantum Fourier Transform: the gates added to a stored circuit\<close>

lemma heap_gate_emit: "heap_gate (h[c := h ! c @ gs]) c g = h[c := h ! c @ gs @ [g]]"
  by (cases "c < length h") (simp_all add: heap_gate_def list_update_beyond)

lemma emit_nth: "h[c := h[c := a] ! c @ b] = h[c := a @ b]"
  by (cases "c < length h") (simp_all add: list_update_beyond)

lemma foldl_heap_gate_emit:
  "foldl (\<lambda>h q. heap_gate h c (g q)) (h[c := h ! c @ gs]) qs = h[c := h ! c @ gs @ map g qs]"
proof (induction qs arbitrary: gs)
  case Nil
  then show ?case by simp
next
  case (Cons q qs)
  show ?case using Cons.IH [of "gs @ [g q]"] by (simp add: heap_gate_emit)
qed

lemma rotations_cp_loop_emit:
  "\<forall>q\<in>set qs. n - q < 1024 \<Longrightarrow>
   rotations_cp_loop (h[c := h ! c @ gs]) c n qs =
     (h[c := h ! c @ gs @ map (\<lambda>q. Gate_cp (pi / 2 ^ nat (n - q)) q n) qs], Inr ())"
proof (induction qs arbitrary: gs)
  case Nil
  then show ?case by simp
next
  case (Cons q qs)
  then have "n - q < 1024" and rest: "\<forall>q\<in>set qs. n - q < 1024" by simp_all
  then show ?case
    using Cons.IH [OF rest, of "gs @ [Gate_cp (pi / 2 ^ nat (n - q)) q n]"]
    by (simp add: py_pi_div_pow2_def heap_gate_emit)
qed

lemma rotation_gates_Suc:
  "rotation_gates (int (Suc k)) =
     (Gate_h (int k) # map (\<lambda>q. Gate_cp (pi / 2 ^ nat (int k - q)) q (int k)) (py_range (int k)))
     @ rotation_gates (int k)"
  unfolding rotation_gates_def py_range_Suc by simp

lemma rotations_layer:
  assumes "k < 1024"
  shows "rotations_cp_loop (heap_gate h c (Gate_h (int k))) c (int k) (py_range (int k)) =
    (h[c := h ! c @ Gate_h (int k) # map (\<lambda>q. Gate_cp (pi / 2 ^ nat (int k - q)) q (int k)) (py_range (int k))],
     Inr ())"
proof -
  have "\<forall>q\<in>set (py_range (int k)). int k - q < 1024"
    using assms by (auto simp: py_range_def)
  from rotations_cp_loop_emit [OF this, of h c "[Gate_h (int k)]"] show ?thesis
    by (simp add: heap_gate_def)
qed

lemma rotations_nat:
  "k \<le> 1024 \<Longrightarrow> k \<le> frames \<Longrightarrow>
   rotations frames h c (int k) = (h[c := h ! c @ rotation_gates (int k)], Inr c)"
proof (induction k arbitrary: frames h)
  case 0
  show ?case by (simp add: rotations.simps [of frames h c 0] rotation_gates_def py_range_0)
next
  case (Suc k)
  then have k: "k < 1024" "k \<le> 1024" "k \<le> frames - 1" "frames \<noteq> 0" by simp_all
  have n: "int (Suc k) \<noteq> 0" "int (Suc k) - 1 = int k" by simp_all
  let ?gs = "Gate_h (int k) # map (\<lambda>q. Gate_cp (pi / 2 ^ nat (int k - q)) q (int k)) (py_range (int k))"
  have step: "rotations frames h c (int (Suc k)) = rotations (frames - 1) (h[c := h ! c @ ?gs]) c (int k)"
    by (subst rotations.simps)
       (simp only: n if_False rotations_layer [OF k(1)] prod.case sum.case k(4))
  show ?case
    unfolding step Suc.IH [OF k(2,3)] rotation_gates_Suc by (simp add: emit_nth)
qed

lemma rotations_returns:
  "0 \<le> n \<Longrightarrow> n \<le> 1024 \<Longrightarrow> nat n \<le> frames \<Longrightarrow>
   rotations frames h c n = (h[c := h ! c @ rotation_gates n], Inr c)"
  using rotations_nat [of "nat n" frames h c] by simp

lemma py_range_pos: "0 < n \<Longrightarrow> py_range n = 0 # map int [1..<nat n]"
  by (simp add: py_range_def upt_conv_Cons)

lemma rotations_overflow:
  assumes "1025 \<le> n"
  shows "rotations frames h c n = (heap_gate h c (Gate_h (n - 1)), Inl OverflowError)"
proof -
  have "py_range (n - 1) = 0 # map int [1..<nat (n - 1)]"
    using assms by (intro py_range_pos) simp
  then show ?thesis
    using assms by (subst rotations.simps) (simp add: py_pi_div_pow2_def)
qed

lemma rotations_layer_int:
  assumes "0 < n" "n \<le> 1024"
  shows "rotations_cp_loop (heap_gate h c (Gate_h (n - 1))) c (n - 1) (py_range (n - 1)) =
    (h[c := h ! c @ Gate_h (n - 1) # map (\<lambda>q. Gate_cp (pi / 2 ^ nat (n - 1 - q)) q (n - 1)) (py_range (n - 1))],
     Inr ())"
proof -
  have "nat (n - 1) < 1024" "int (nat (n - 1)) = n - 1" using assms by simp_all
  with rotations_layer [of "nat (n - 1)" h c] show ?thesis by simp
qed

lemma rotations_recursion_limit:
  "0 \<le> n \<Longrightarrow> n \<le> 1024 \<Longrightarrow> frames < nat n \<Longrightarrow>
   snd (rotations frames h c n) = Inl RecursionError"
proof (induction frames arbitrary: n h)
  case 0
  then have pos: "0 < n" by simp
  show ?case
    using pos by (subst rotations.simps) (simp add: rotations_layer_int [OF pos "0.prems"(2)])
next
  case (Suc frames)
  then have pos: "0 < n" by simp
  have "snd (rotations frames h' c (n - 1)) = Inl RecursionError" for h'
    using Suc.prems by (intro Suc.IH) simp_all
  then show ?case
    using pos by (subst rotations.simps) (simp add: rotations_layer_int [OF pos Suc.prems(2)])
qed

lemma textbook_qft_split:
  "textbook_qft n = rotation_gates n @ map (\<lambda>q. Gate_swap q (n - 1 - q)) (py_range (n div 2))"
  by (simp add: textbook_qft_def rotation_gates_def)

lemma swap_registers_emit:
  "swap_registers (h[c := h ! c @ gs]) c n =
     (h[c := h ! c @ gs @ map (\<lambda>q. Gate_swap q (n - 1 - q)) (py_range (n div 2))], c)"
proof -
  have m: "(\<lambda>q. Gate_swap q (n - q - 1)) = (\<lambda>q. Gate_swap q (n - 1 - q))"
    by (rule ext) simp
  show ?thesis
    using foldl_heap_gate_emit [of c "\<lambda>q. Gate_swap q (n - q - 1)" h gs "py_range (n div 2)"]
    by (simp add: swap_registers_def m)
qed

lemma QFT_algorithm_emit:
  assumes "0 \<le> qft_n self" "qft_n self \<le> 1024" "nat (qft_n self) \<le> frames"
  shows "QFT_algorithm frames h self draw =
    (h[qft_circuit self := h ! qft_circuit self @ textbook_qft (qft_n self)], Inr (qft_circuit self))"
  by (simp add: QFT_algorithm_def rotations_returns [OF assms] swap_registers_emit textbook_qft_split)

lemma QFT_algorithm_overflow:
  assumes "1025 \<le> qft_n self"
  shows "QFT_algorithm frames h self draw =
    (heap_gate h (qft_circuit self) (Gate_h (qft_n self - 1)), Inl OverflowError)"
  by (simp add: QFT_algorithm_def rotations_overflow [OF assms])

lemma QFT_algorithm_recursion_limit:
  assumes "0 \<le> qft_n self" "qft_n self \<le> 1024" "frames < nat (qft_n self)"
  shows "snd (QFT_algorithm frames h self draw) = Inl RecursionError"
  using rotations_recursion_limit [OF assms, of h "qft_circuit self"]
  by (cases "rotations frames h (qft_circuit self) (qft_n self)") (simp add: QFT_algorithm_def)

lemma QFT_init_eq: "QFT_init h n = (h @ [[]], \<lparr>qft_n = n, qft_circuit = length h\<rparr>)"
  by (simp add: QFT_init_def heap_new_def)



lemma textbook_qft_3:
  "textbook_qft 3 = [Gate_h 2, Gate_cp (pi / 4) 0 2, Gate_cp (pi / 2) 1 2,
      Gate_h 1, Gate_cp (pi / 2) 0 1, Gate_h 0, Gate_swap 0 2]"
  by (simp add: textbook_qft_def py_range_def upt_rec)






lemma rotation_gates_0: "rotation_gates 0 = []"
  by (simp add: rotation_gates_def py_range_def)

lemma rotation_gates_2: "rotation_gates 2 = [Gate_h 1, Gate_cp (pi / 2) 0 1, Gate_h 0]"
  by (simp add: rotation_gates_def py_range_def upt_rec)

text \<open>
  Claim C6 says that \<^verbatim>\<open>QuantumFourierTransform.algorithm\<close> emits the textbook gate
  sequence for every \<open>num_qubits \<ge> 0\<close>. For 1025 qubits it does not: the first angle is
  \<^verbatim>\<open>np.pi/(2**1024)\<close>, and the call ends in \<^verbatim>\<open>OverflowError\<close> with one Hadamard gate in
  the circuit.
\<close>

theorem QFT_algorithm_overflow_counterexample:
  "QFT_init [] 1025 = ([[]], \<lparr>qft_n = 1025, qft_circuit = 0\<rparr>)
   \<and> QFT_algorithm 2000 [[]] \<lparr>qft_n = 1025, qft_circuit = 0\<rparr> False
       = ([[Gate_h 1024]], Inl OverflowError)"
  using QFT_algorithm_overflow [of "\<lparr>qft_n = 1025, qft_circuit = 0\<rparr>" 2000 "[[]]" False]
  by (simp add: QFT_init_eq heap_gate_def)

text \<open>
  Claim C6 as amended: called on a newly built instance for \<open>0 \<le> num_qubits \<le> 1024\<close>
  qubits, with room under the recursion limit for \<open>num_qubits\<close> further nested calls of
  \<^verbatim>\<open>rotations\<close>, \<^verbatim>\<open>algorithm\<close> returns the instance's circuit, which then holds exactly
  \<open>textbook_qft num_qubits\<close>. From 1025 qubits on the call raises \<^verbatim>\<open>OverflowError\<close> after
  its first Hadamard gate, and for up to 1024 qubits with less room it raises
  \<^verbatim>\<open>RecursionError\<close>.
\<close>

theorem QFT_algorithm_textbook:
  assumes "QFT_init h num_qubits = (h', self)"
  shows "(0 \<le> num_qubits \<and> num_qubits \<le> 1024 \<and> nat num_qubits \<le> frames \<longrightarrow>
            QFT_algorithm frames h' self draw = (h @ [textbook_qft num_qubits], Inr (qft_circuit self)))
       \<and> (1025 \<le> num_qubits \<longrightarrow>
            QFT_algorithm frames h' self draw = (h @ [[Gate_h (num_qubits - 1)]], Inl OverflowError))
       \<and> (0 \<le> num_qubits \<and> num_qubits \<le> 1024 \<and> frames < nat num_qubits \<longrightarrow>
            snd (QFT_algorithm frames h' self draw) = Inl RecursionError)"
proof -
  from assms have h': "h' = h @ [[]]"
    and self: "self = \<lparr>qft_n = num_qubits, qft_circuit = length h\<rparr>"
    by (simp_all add: QFT_init_eq)
  show ?thesis
    using QFT_algorithm_emit [of self frames h' draw] QFT_algorithm_overflow [of self frames h' draw]
      QFT_algorithm_recursion_limit [of self frames h' draw]
    by (simp add: h' self heap_gate_def)
qed

theorem QFT_algorithm_textbook_witness:
  "QFT_init [] 3 = ([[]], \<lparr>qft_n = 3, qft_circuit = 0\<rparr>)
   \<and> QFT_algorithm 900 [[]] \<lparr>qft_n = 3, qft_circuit = 0\<rparr> False =
     ([[Gate_h 2, Gate_cp (pi / 4) 0 2, Gate_cp (pi / 2) 1 2,
        Gate_h 1, Gate_cp (pi / 2) 0 1, Gate_h 0, Gate_swap 0 2]], Inr 0)
   \<and> snd (QFT_algorithm 2 [[]] \<lparr>qft_n = 3, qft_circuit = 0\<rparr> False) = Inl RecursionError
   \<and> QFT_init [] 2000 = ([[]], \<lparr>qft_n = 2000, qft_circuit = 0\<rparr>)
   \<and> QFT_algorithm 5000 [[]] \<lparr>qft_n = 2000, qft_circuit = 0\<rparr> False =
     ([[Gate_h 1999]], Inl OverflowError)"
  using QFT_algorithm_textbook [of "[]" 3 "[[]]" "\<lparr>qft_n = 3, qft_circuit = 0\<rparr>" 900 False]
    QFT_algorithm_textbook [of "[]" 3 "[[]]" "\<lparr>qft_n = 3, qft_circuit = 0\<rparr>" 2 False]
    QFT_algorithm_textbook [of "[]" 2000 "[[]]" "\<lparr>qft_n = 2000, qft_circuit = 0\<rparr>" 5000 False]
  by (simp add: QFT_init_eq textbook_qft_3)

text \<open>
  Claim C9 says that \<^verbatim>\<open>rotations\<close> reaches its base case for every \<open>n \<ge> 0\<close>. It does not
  for \<open>n = 1025\<close>, where the first angle raises \<^verbatim>\<open>OverflowError\<close>, nor for \<open>n = 1000\<close>
  when the recursion limit leaves room for 999 further nested calls.
\<close>

theorem rotations_overflow_counterexample:
  "rotations 2000 [[]] 0 1025 = ([[Gate_h 1024]], Inl OverflowError)
   \<and> snd (rotations 999 [[]] 0 1000) = Inl RecursionError"
  using rotations_overflow [of 1025 2000 "[[]]" 0] rotations_recursion_limit [of 1000 999 "[[]]" 0]
  by (simp add: heap_gate_def)

text \<open>
  Claim C9 as amended: \<^verbatim>\<open>rotations\<close> always ends, by returning or by raising. For
  \<open>0 \<le> n \<le> 1024\<close>, with room under the recursion limit for \<open>n\<close> further nested calls, it
  returns the reference it was given, the rotation gates for \<open>n - 1\<close> down to \<open>0\<close> added
  to that circuit; for \<open>n = 0\<close> it returns at once and no circuit in the store has changed.
  For \<open>n \<ge> 1025\<close> it raises \<^verbatim>\<open>OverflowError\<close> after one Hadamard gate, and for
  \<open>n \<le> 1024\<close> with less room it raises \<^verbatim>\<open>RecursionError\<close>.
\<close>

theorem rotations_terminates:
  "(0 \<le> n \<and> n \<le> 1024 \<and> nat n \<le> frames \<longrightarrow>
      rotations frames h circuit n = (h[circuit := h ! circuit @ rotation_gates n], Inr circuit))
   \<and> rotations frames h circuit 0 = (h, Inr circuit)
   \<and> (1025 \<le> n \<longrightarrow>
      rotations frames h circuit n = (heap_gate h circuit (Gate_h (n - 1)), Inl OverflowError))
   \<and> (0 \<le> n \<and> n \<le> 1024 \<and> frames < nat n \<longrightarrow>
      snd (rotations frames h circuit n) = Inl RecursionError)"
  by (simp add: rotations_returns rotations_overflow rotations_recursion_limit
      rotations.simps [of frames h circuit 0])

theorem rotations_terminates_witness:
  "rotations 900 [[]] 0 2 = ([[Gate_h 1, Gate_cp (pi / 2) 0 1, Gate_h 0]], Inr 0)
   \<and> rotations 0 [[Gate_x 7]] 0 0 = ([[Gate_x 7]], Inr 0)
   \<and> rotations 5000 [[]] 0 2000 = ([[Gate_h 1999]], Inl OverflowError)
   \<and> snd (rotations 1 [[]] 0 3) = Inl RecursionError"
  using rotations_terminates [of 2 900 "[[]]" 0] rotations_terminates [of 0 0 "[[Gate_x 7]]" 0]
    rotations_terminates [of 2000 5000 "[[]]" 0] rotations_terminates [of 3 1 "[[]]" 0]
  by (simp add: rotation_gates_2 rotation_gates_0 heap_gate_def)


section \<open>Quantum Phase Estimation: the controlled rotations\<close>

lemma controlled_u_loop_nat:
  "controlled_u_loop angle n (circuit, repetitions) (py_range (int k)) =
     (circuit @ concat (map (\<lambda>i. replicate (nat (repetitions * 2 ^ nat i)) (Gate_cp angle i n))
                         (py_range (int k))),
      repetitions * 2 ^ k)"
proof (induction k)
  case 0
  show ?case by (simp add: controlled_u_loop_def py_range_def)
next
  case (Suc k)
  have "controlled_u_loop angle n (circuit, repetitions) (py_range (int (Suc k))) =
      controlled_u_loop angle n
        (controlled_u_loop angle n (circuit, repetitions) (py_range (int k))) [int k]"
    by (simp add: controlled_u_loop_def py_range_Suc del: of_nat_Suc)
  also have "\<dots> =
      (circuit @ concat (map (\<lambda>i. replicate (nat (repetitions * 2 ^ nat i)) (Gate_cp angle i n))
                          (py_range (int (Suc k)))),
       repetitions * 2 ^ Suc k)"
    unfolding Suc.IH
    by (simp add: controlled_u_loop_def py_range_Suc foldl_append_const length_py_range
        del: of_nat_Suc)
  finally show ?case .
qed

lemma qft_inverse_eq: "qft_inverse circuit n = circuit @ qft_inverse_gates n"
proof -
  have m: "(\<lambda>q. Gate_swap q (n - q - 1)) = (\<lambda>q. Gate_swap q (n - 1 - q))"
    by (rule ext) simp
  have "foldl (\<lambda>c j. foldl (\<lambda>c m. c @ [Gate_cp (- pi / 2 ^ nat (j - m)) m j]) c (py_range j) @ [Gate_h j]) c qs
      = c @ concat (map (\<lambda>j. map (\<lambda>m. Gate_cp (- pi / 2 ^ nat (j - m)) m j) (py_range j) @ [Gate_h j]) qs)"
    for c qs
    by (rule foldl_append_block) (simp add: foldl_append_gates)
  then show ?thesis
    by (simp add: qft_inverse_def qft_inverse_gates_def Let_def foldl_append_gates m)
qed

lemma count_list_concat: "count_list (concat xss) a = sum_list (map (\<lambda>xs. count_list xs a) xss)"
  by (induction xss) simp_all

lemma count_list_replicate_if: "count_list (replicate k y) a = (if y = a then k else 0)"
  by (induction k) auto

lemma distinct_py_range: "distinct (py_range n)"
  by (simp add: py_range_def distinct_map inj_on_def)

lemma set_py_range: "set (py_range n) = {0..<n}"
proof -
  have "x \<in> int ` {0..<nat n}" if "0 \<le> x" "x < n" for x
    using that by (intro image_eqI [of _ _ "nat x"]) simp_all
  then show ?thesis by (auto simp: py_range_def)
qed

lemma QPE_algorithm_gates:
  "QPE_algorithm (QPE_init n theta) eigenstate_x 1 draw =
       map Gate_h (py_range n) @ (if eigenstate_x then [Gate_x n] else [])
       @ concat (map (\<lambda>i. replicate (2 ^ nat i) (Gate_cp (2 * pi * theta) i n)) (py_range n))
       @ [Gate_barrier] @ qft_inverse_gates n @ [Gate_barrier]
       @ map (\<lambda>q. Gate_measure q q) (py_range n)"
proof -
  have loop: "controlled_u_loop angle n (c, 1) (py_range n) =
      (c @ concat (map (\<lambda>i. replicate (2 ^ nat i) (Gate_cp angle i n)) (py_range n)), 2 ^ nat n)"
    for angle c
    using controlled_u_loop_nat [of angle n c 1 "nat n"] py_range_nat [of n]
    by (simp add: nat_power_eq)
  show ?thesis
    by (simp add: QPE_algorithm_def QPE_init_def Let_def foldl_append_gates loop qft_inverse_eq)
qed

lemma count_controlled_u:
  assumes "0 \<le> i" "i < n"
  shows "count_list (concat (map (\<lambda>i. replicate (2 ^ nat i) (Gate_cp a i n)) (py_range n)))
           (Gate_cp a i n) = 2 ^ nat i"
proof -
  have "count_list (concat (map (\<lambda>i. replicate (2 ^ nat i) (Gate_cp a i n)) (py_range n))) (Gate_cp a i n)
      = sum_list (map (\<lambda>k. if k = i then 2 ^ nat k else 0) (py_range n))"
    by (simp add: count_list_concat count_list_replicate_if comp_def)
  also have "\<dots> = (\<Sum>k\<in>{0..<n}. if k = i then 2 ^ nat k else 0)"
    by (simp add: sum_list_distinct_conv_sum_set [OF distinct_py_range] set_py_range)
  also have "\<dots> = 2 ^ nat i"
    using assms by (simp add: sum.delta)
  finally show ?thesis .
qed

lemma cp_not_in_qft_inverse: "Gate_cp a i n \<notin> set (qft_inverse_gates n)"
  by (auto simp: qft_inverse_gates_def set_py_range)

text \<open>
  Claim C7: \<^verbatim>\<open>QuantumPhaseEstimation\<close> stores the angle \<open>2 \<pi> \<theta>\<close>, and
  \<^verbatim>\<open>algorithm()\<close> with \<open>repetitions = 1\<close> applies the controlled phase of that angle,
  from counting qubit \<open>i\<close> onto the eigenstate qubit \<open>n\<close>, \<open>2\<^sup>i\<close> times for each \<open>i < n\<close>, in
  the order of the counting qubits. The theorem gives the whole circuit, and the number of
  times that gate stands in it.
\<close>

theorem QPE_controlled_u:
  "qpe_angle (QPE_init n theta) = 2 * pi * theta
   \<and> QPE_algorithm (QPE_init n theta) eigenstate_x 1 draw =
       map Gate_h (py_range n) @ (if eigenstate_x then [Gate_x n] else [])
       @ concat (map (\<lambda>i. replicate (2 ^ nat i) (Gate_cp (2 * pi * theta) i n)) (py_range n))
       @ [Gate_barrier] @ qft_inverse_gates n @ [Gate_barrier]
       @ map (\<lambda>q. Gate_measure q q) (py_range n)
   \<and> (0 \<le> i \<and> i < n \<longrightarrow>
        count_list (QPE_algorithm (QPE_init n theta) eigenstate_x 1 draw)
          (Gate_cp (2 * pi * theta) i n) = 2 ^ nat i)"
proof -
  have h: "count_list (map Gate_h qs) (Gate_cp a i n) = 0" for qs a
    by (simp add: count_list_0_iff image_iff)
  have m: "count_list (map (\<lambda>q. Gate_measure q q) qs) (Gate_cp a i n) = 0" for qs a
    by (auto simp: count_list_0_iff)
  have q: "count_list (qft_inverse_gates n) (Gate_cp a i n) = 0" for a
    by (simp add: count_list_0_iff cp_not_in_qft_inverse)
  show ?thesis
    unfolding QPE_algorithm_gates
    by (simp add: QPE_init_def h m q count_controlled_u)
qed

theorem QPE_controlled_u_witness:
  "count_list (QPE_algorithm (QPE_init 2 (1 / 8)) False 1 False) (Gate_cp (2 * pi * (1 / 8)) 1 2) = 2
   \<and> QPE_algorithm (QPE_init 2 (1 / 8)) False 1 False =
      [Gate_h 0, Gate_h 1,
       Gate_cp (2 * pi * (1 / 8)) 0 2, Gate_cp (2 * pi * (1 / 8)) 1 2, Gate_cp (2 * pi * (1 / 8)) 1 2,
       Gate_barrier, Gate_swap 0 1, Gate_h 0, Gate_cp (- pi / 2) 0 1, Gate_h 1, Gate_barrier,
       Gate_measure 0 0, Gate_measure 1 1]"
  using QPE_controlled_u [of 2 "1 / 8" False False 1]
  by (simp add: py_range_def upt_rec qft_inverse_gates_def numeral_2_eq_2)


section \<open>Simon's problem: the inner product\<close>

lemma py_int_bit: "c = CHR ''0'' \<or> c = CHR ''1'' \<Longrightarrow> py_int c = Inr (bit_of c)"
  by (auto simp: py_int_def bit_of_def)

lemma bdotz_loop_bits:
  assumes "is_bitstring b" "is_bitstring z" "length b = length z"
  shows "\<forall>i\<in>set ks. i < length b \<Longrightarrow>
    bdotz_loop b z (map int ks) accum = Inr (accum + (\<Sum>i\<leftarrow>ks. bit_of (b ! i) * bit_of (z ! i)))"
proof (induction ks arbitrary: accum)
  case Nil
  then show ?case by simp
next
  case (Cons k ks)
  from Cons.prems have k: "k < length b" "k < length z" using assms(3) by auto
  have "py_int (b ! k) = Inr (bit_of (b ! k))" "py_int (z ! k) = Inr (bit_of (z ! k))"
    using assms k by (simp_all add: py_int_bit is_bitstring_nth)
  then show ?case using Cons k by (simp add: py_getitem_nat add.assoc)
qed

text \<open>
  Claim C10: for bit strings \<open>b\<close> and \<open>z\<close> of equal length, \<^verbatim>\<open>bdotz(b, z)\<close> returns the
  sum of the products \<open>b[i] * z[i]\<close> modulo 2, which is 0 or 1.
\<close>

theorem bdotz_inner_product:
  assumes "is_bitstring b" "is_bitstring z" "length b = length z"
  shows "bdotz b z = Inr ((\<Sum>i<length b. bit_of (b ! i) * bit_of (z ! i)) mod 2)
    \<and> (bdotz b z = Inr 0 \<or> bdotz b z = Inr 1)"
proof -
  have "bdotz_loop b z (map int [0..<length b]) 0
      = Inr (0 + (\<Sum>i\<leftarrow>[0..<length b]. bit_of (b ! i) * bit_of (z ! i)))"
    by (rule bdotz_loop_bits [OF assms]) simp
  also have "(\<Sum>i\<leftarrow>[0..<length b]. bit_of (b ! i) * bit_of (z ! i))
      = (\<Sum>i<length b. bit_of (b ! i) * bit_of (z ! i))"
    by (simp add: interv_sum_list_conv_sum_set_nat lessThan_atLeast0)
  finally have eq: "bdotz b z = Inr ((\<Sum>i<length b. bit_of (b ! i) * bit_of (z ! i)) mod 2)"
    by (simp add: bdotz_def py_range_def)
  have "(\<Sum>i<length b. bit_of (b ! i) * bit_of (z ! i)) mod 2 = 0
      \<or> (\<Sum>i<length b. bit_of (b ! i) * bit_of (z ! i)) mod 2 = 1"
    by presburger
  with eq show ?thesis by auto
qed

theorem bdotz_inner_product_witness:
  "is_bitstring ''110'' \<and> is_bitstring ''011'' \<and> length ''110'' = length ''011''
   \<and> bdotz ''110'' ''011'' = Inr 1 \<and> bdotz ''110'' ''110'' = Inr 0"
  using bdotz_inner_product [of "''110''" "''011''"] bdotz_inner_product [of "''110''" "''110''"]
  by (simp add: is_bitstring_def bit_of_def lessThan_Suc numeral_3_eq_3)

section \<open>Simon's problem: the loop that realises the permutation\<close>


lemma py_index_found:
  "v \<in> set xs \<Longrightarrow> \<exists>k. py_index xs v = Inr k \<and> k < length xs \<and> xs ! k = v"
proof (induction xs)
  case Nil
  then show ?case by simp
next
  case (Cons x xs)
  show ?case
  proof (cases "x = v")
    case True
    then show ?thesis by simp
  next
    case False
    with Cons.prems have "v \<in> set xs" by simp
    from Cons.IH [OF this] obtain k where "py_index xs v = Inr k" "k < length xs" "xs ! k = v"
      by blast
    with False show ?thesis by simp
  qed
qed

lemma permute_step_keep:
  assumes "i < length pos" "i < length perm" "pos ! i = perm ! i"
  shows "permute_step n perm (i, pos, c) = Inr (i + 1, pos, c)"
  using assms by (simp add: permute_step_def py_getitem_nat)

lemma permute_step_swap:
  assumes "i < length pos" "i < length perm" "pos ! i \<noteq> perm ! i"
    and "py_index perm (pos ! i) = Inr k" "k < length pos"
  shows "permute_step n perm (i, pos, c) =
    Inr (i, pos[i := pos ! k, k := pos ! i], c @ [Gate_swap (int (n + i)) (int (n + k))])"
  using assms by (simp add: permute_step_def py_getitem_nat)

lemma permute_loop_unfold:
  "permute_loop n perm (i, pos, c) =
     (if i < n then
        (case permute_step n perm (i, pos, c) of
           Inl e \<Rightarrow> Some (Inl e)
         | Inr state' \<Rightarrow> permute_loop n perm state')
      else Some (Inr (i, pos, c)))"
  by (subst permute_loop.simps) simp

lemma finite_misplaced: "finite (misplaced n perm pos)"
  by (simp add: misplaced_def)

lemma permute_loop_reaches:
  assumes perm: "length perm = n" "distinct perm" "set perm = {0..<n}"
  shows "length pos = n \<Longrightarrow> distinct pos \<Longrightarrow> set pos = {0..<n} \<Longrightarrow> i \<le> n \<Longrightarrow>
     (\<forall>j<i. pos ! j = perm ! j) \<Longrightarrow>
     \<exists>c'. permute_loop n perm (i, pos, c) = Some (Inr (n, perm, c'))"
proof (induction "card (misplaced n perm pos) + (n - i)" arbitrary: i pos c rule: less_induct)
  case less
  note len = \<open>length pos = n\<close> and dist = \<open>distinct pos\<close> and setp = \<open>set pos = {0..<n}\<close>
    and ile = \<open>i \<le> n\<close> and fixed = \<open>\<forall>j<i. pos ! j = perm ! j\<close>
  show ?case
  proof (cases "i < n")
    case False
    with ile have "i = n" by simp
    with fixed len perm(1) have "pos = perm" by (auto intro: nth_equalityI)
    with False \<open>i = n\<close> show ?thesis by (simp add: permute_loop_unfold)
  next
    case True
    show ?thesis
    proof (cases "pos ! i = perm ! i")
      case same: True
      have step: "permute_step n perm (i, pos, c) = Inr (i + 1, pos, c)"
        using True len perm(1) same by (intro permute_step_keep) simp_all
      have "\<forall>j<i + 1. pos ! j = perm ! j" using fixed same by (auto simp: less_Suc_eq)
      moreover have "card (misplaced n perm pos) + (n - (i + 1)) < card (misplaced n perm pos) + (n - i)"
        using True by simp
      ultimately obtain c' where "permute_loop n perm (i + 1, pos, c) = Some (Inr (n, perm, c'))"
        using less.hyps [of pos "i + 1" c] len dist setp True by auto
      with True step show ?thesis by (simp add: permute_loop_unfold)
    next
      case differ: False
      have "pos ! i \<in> set perm" using True len setp perm(3) nth_mem [of i pos] by simp
      from py_index_found [OF this] obtain k
        where k: "py_index perm (pos ! i) = Inr k" "k < length perm" "perm ! k = pos ! i"
        by blast
      have kn: "k < n" using k(2) perm(1) by simp
      have ki: "k \<noteq> i" using k(3) differ by auto
      have kgt: "i < k"
      proof (rule ccontr)
        assume "\<not> i < k"
        with ki have "k < i" by simp
        with fixed have "pos ! k = perm ! k" by simp
        with k(3) have "pos ! k = pos ! i" by simp
        with dist ki kn True len show False by (simp add: nth_eq_iff_index_eq)
      qed
      let ?pos = "pos[i := pos ! k, k := pos ! i]"
      let ?c = "c @ [Gate_swap (int (n + i)) (int (n + k))]"
      have step: "permute_step n perm (i, pos, c) = Inr (i, ?pos, ?c)"
        using True len perm(1) differ k(1) kn by (intro permute_step_swap) simp_all
      have len': "length ?pos = n" using len by simp
      have dist': "distinct ?pos" using dist True kn len by (simp add: distinct_swap)
      have set': "set ?pos = {0..<n}" using setp True kn len by (simp add: set_swap)
      have fixed': "\<forall>j<i. ?pos ! j = perm ! j" using fixed kgt by simp
      have k_wrong: "k \<in> misplaced n perm pos"
      proof -
        have "pos ! k \<noteq> pos ! i" using dist ki kn True len by (simp add: nth_eq_iff_index_eq)
        with k(3) kn show ?thesis by (simp add: misplaced_def)
      qed
      have k_right: "k \<notin> misplaced n perm ?pos"
        using k(3) kn len by (simp add: misplaced_def)
      have sub: "misplaced n perm ?pos \<subseteq> misplaced n perm pos"
      proof
        fix j assume j: "j \<in> misplaced n perm ?pos"
        then have jn: "j < n" and jw: "?pos ! j \<noteq> perm ! j" by (simp_all add: misplaced_def)
        have "j \<noteq> k" using j k_right by auto
        show "j \<in> misplaced n perm pos"
        proof (cases "j = i")
          case True
          with differ jn show ?thesis by (simp add: misplaced_def)
        next
          case False
          with \<open>j \<noteq> k\<close> jw jn show ?thesis by (simp add: misplaced_def)
        qed
      qed
      with k_wrong k_right have "misplaced n perm ?pos \<subset> misplaced n perm pos" by auto
      then have "card (misplaced n perm ?pos) < card (misplaced n perm pos)"
        by (rule psubset_card_mono [OF finite_misplaced])
      then have "card (misplaced n perm ?pos) + (n - i) < card (misplaced n perm pos) + (n - i)"
        by simp
      from less.hyps [OF this len' dist' set' ile fixed', of ?c]
      obtain c' where "permute_loop n perm (i, ?pos, ?c) = Some (Inr (n, perm, c'))" by blast
      with True step show ?thesis by (simp add: permute_loop_unfold)
    qed
  qed
qed


text \<open>
  Claim C8: for every \<open>n\<close> and every permutation of \<open>0, \<dots>, n - 1\<close>, the while loop of
  \<^verbatim>\<open>SimonProblem.oracle\<close> returns, raising nothing, with \<open>i = n\<close> and
  \<^verbatim>\<open>initial_position\<close> equal to the permutation.
\<close>

theorem permute_loop_terminates:
  assumes "distinct permutation" and "set permutation = {0..<n}"
  shows "\<exists>circuit'. permute_loop n permutation (0, [0..<n], circuit) = Some (Inr (n, permutation, circuit'))"
proof -
  have "length permutation = n"
    using assms distinct_card [of permutation] by simp
  from permute_loop_reaches [OF this assms, of "[0..<n]" 0 circuit] show ?thesis by simp
qed

theorem permute_loop_terminates_witness:
  "distinct [2, 0, 1 :: nat] \<and> set [2, 0, 1 :: nat] = {0..<3}
   \<and> (\<exists>circuit'. permute_loop 3 [2, 0, 1] (0, [0..<3], []) = Some (Inr (3, [2, 0, 1], circuit')))"
proof -
  have d: "distinct [2, 0, 1 :: nat]" by simp
  have s: "set [2, 0, 1 :: nat] = {0..<3}" by auto
  from permute_loop_terminates [OF d s, of "[]"] d s show ?thesis by blast
qed

text \<open>
  With a permutation drawn, the whole of \<^verbatim>\<open>oracle\<close> returns a circuit. A list that is
  not a permutation can end the loop in \<^verbatim>\<open>ValueError\<close>.
\<close>

lemma Simon_oracle_returns:
  assumes "distinct permutation" and "set permutation = {0..<simon_n self}"
  shows "\<exists>c. Simon_oracle self circuit permutation flips = Some (Inr c)"
proof -
  have len: "length permutation = simon_n self"
    using assms distinct_card [of permutation] by simp
  from permute_loop_reaches [OF len assms, of "[0..<simon_n self]" 0]
  have "\<exists>c'. permute_loop (simon_n self) permutation (0, [0..<simon_n self], c)
      = Some (Inr (simon_n self, permutation, c'))" for c
    by simp
  then show ?thesis
    unfolding Simon_oracle_def Let_def by (metis (no_types, lifting) option.simps(5) sum.simps(6) case_prod_conv)
qed

lemma permute_loop_not_a_permutation:
  "permute_loop 2 [0, 0] (0, [0..<2], []) = Some (Inl ValueError)"
  by (simp add: permute_loop_unfold permute_step_def py_getitem_def upt_rec)


section \<open>Deutsch-Jozsa and Simon: the oracles and the random draws\<close>



lemma foldl_append_if: "foldl (\<lambda>c q. if P q then c @ [g q] else c) c qs = c @ map g (filter P qs)"
  by (induction qs arbitrary: c) simp_all

lemma DJ_oracle_constant:
  "dj_type self = ''constant'' \<Longrightarrow>
   DJ_oracle self output b = Inr (if output = 1 then [Gate_x (dj_num_bits self)] else [])"
  by (simp add: DJ_oracle_def)

lemma DJ_oracle_balanced:
  "dj_type self = ''balanced'' \<Longrightarrow> 0 \<le> dj_num_bits self \<Longrightarrow>
   DJ_oracle self output b =
     Inr (x_gates (py_format_bin b (nat (dj_num_bits self)))
          @ map (\<lambda>q. Gate_cx q (dj_num_bits self)) (py_range (dj_num_bits self))
          @ x_gates (py_format_bin b (nat (dj_num_bits self))))"
  by (simp add: DJ_oracle_def Let_def foldl_append_if foldl_append_gates x_gates_def)

lemma bin_value_append: "bin_value (xs @ ys) acc = bin_value ys (bin_value xs acc)"
  by (induction xs arbitrary: acc) simp_all

lemma bin_value_digits: "bin_value (bin_digits b) 0 = b"
proof (induction b rule: bin_digits.induct)
  case (1 b)
  show ?case
  proof (cases "b < 2")
    case True
    then show ?thesis by (subst bin_digits.simps) auto
  next
    case False
    from 1 [OF False] have IH: "bin_value (bin_digits (b div 2)) 0 = b div 2" .
    have e: "bin_digits b = bin_digits (b div 2) @ [if b mod 2 = 0 then CHR ''0'' else CHR ''1'']"
      using False by (subst bin_digits.simps) simp
    have "bin_value (bin_digits b) 0 = 2 * (b div 2) + (if b mod 2 = 0 then 0 else 1)"
      unfolding e by (simp add: bin_value_append IH)
    also have "\<dots> = b" by presburger
    finally show ?thesis .
  qed
qed

lemma bin_value_zeros: "bin_value (replicate k (CHR ''0'')) 0 = 0"
  by (induction k) simp_all

lemma bin_value_format: "bin_value (py_format_bin b w) 0 = b"
  by (simp add: py_format_bin_def bin_value_append bin_value_zeros bin_value_digits)

lemma is_bitstring_digits: "is_bitstring (bin_digits b)"
proof (induction b rule: bin_digits.induct)
  case (1 b)
  show ?case
  proof (cases "b < 2")
    case True
    then show ?thesis by (subst bin_digits.simps) (simp add: is_bitstring_def)
  next
    case False
    with 1 [OF False] show ?thesis
      by (subst bin_digits.simps) (simp add: is_bitstring_def)
  qed
qed

lemma is_bitstring_zeros: "is_bitstring (replicate k (CHR ''0''))"
  by (induction k) (simp_all add: is_bitstring_def)

lemma is_bitstring_format: "is_bitstring (py_format_bin b w)"
  using is_bitstring_digits [of b] is_bitstring_zeros [of "w - length (bin_digits b)"]
  by (simp add: py_format_bin_def is_bitstring_def)

lemma length_bin_digits: "0 < w \<Longrightarrow> b < 2 ^ w \<Longrightarrow> length (bin_digits b) \<le> w"
proof (induction w arbitrary: b)
  case 0
  then show ?case by simp
next
  case (Suc w)
  show ?case
  proof (cases "b < 2")
    case True
    then show ?thesis by (subst bin_digits.simps) simp
  next
    case False
    with Suc.prems have w: "0 < w" by (cases w) auto
    have "b div 2 < 2 ^ w" using Suc.prems by auto
    from Suc.IH [OF w this] False show ?thesis
      by (subst bin_digits.simps) simp
  qed
qed

lemma length_format: "0 < w \<Longrightarrow> b < 2 ^ w \<Longrightarrow> length (py_format_bin b w) = w"
  using length_bin_digits [of w b] by (simp add: py_format_bin_def)

lemma x_gates_inj:
  assumes "x_gates s = x_gates s'" "length s = length s'" "is_bitstring s" "is_bitstring s'"
  shows "s = s'"
proof (rule nth_equalityI)
  show "length s = length s'" by fact
next
  fix i assume i: "i < length s"
  have inj: "inj Gate_x" by (rule injI) simp
  from assms(1,2) have "filter (\<lambda>q. s ! nat q = CHR ''1'') (py_range (int (length s)))
      = filter (\<lambda>q. s' ! nat q = CHR ''1'') (py_range (int (length s)))"
    by (simp add: x_gates_def inj_map_eq_map [OF inj])
  then have "(int i \<in> set (filter (\<lambda>q. s ! nat q = CHR ''1'') (py_range (int (length s)))))
      = (int i \<in> set (filter (\<lambda>q. s' ! nat q = CHR ''1'') (py_range (int (length s)))))"
    by simp
  moreover have "int i \<in> set (py_range (int (length s)))" using i by (simp add: py_range_def)
  ultimately have "(s ! i = CHR ''1'') = (s' ! i = CHR ''1'')" by simp
  with is_bitstring_nth [OF assms(3) i] is_bitstring_nth [OF assms(4), of i] i assms(2)
  show "s ! i = s' ! i" by auto
qed

lemma sandwich_eq:
  assumes "xs @ m @ xs = ys @ m @ ys"
  shows "xs = ys"
proof -
  from assms have "length (xs @ m @ xs) = length (ys @ m @ ys)" by simp
  then have "length xs = length ys" by simp
  with assms show ?thesis by simp
qed

lemma DJ_oracle_balanced_inj:
  assumes "dj_type self = ''balanced''" "0 < dj_num_bits self"
    "b < 2 ^ nat (dj_num_bits self)" "b' < 2 ^ nat (dj_num_bits self)"
  shows "(DJ_oracle self output b = DJ_oracle self output' b') = (b = b')"
proof
  assume eq: "DJ_oracle self output b = DJ_oracle self output' b'"
  let ?w = "nat (dj_num_bits self)"
  have w: "0 < ?w" using assms(2) by simp
  from eq have "x_gates (py_format_bin b ?w)
        @ map (\<lambda>q. Gate_cx q (dj_num_bits self)) (py_range (dj_num_bits self))
        @ x_gates (py_format_bin b ?w)
      = x_gates (py_format_bin b' ?w)
        @ map (\<lambda>q. Gate_cx q (dj_num_bits self)) (py_range (dj_num_bits self))
        @ x_gates (py_format_bin b' ?w)"
    using assms(1,2) by (simp add: DJ_oracle_balanced)
  then have "x_gates (py_format_bin b ?w) = x_gates (py_format_bin b' ?w)"
    by (rule sandwich_eq)
  then have "py_format_bin b ?w = py_format_bin b' ?w"
    by (rule x_gates_inj)
       (simp_all add: length_format [OF w] assms(3,4) is_bitstring_format)
  then have "bin_value (py_format_bin b ?w) 0 = bin_value (py_format_bin b' ?w) 0" by simp
  then show "b = b'" by (simp add: bin_value_format)
next
  assume "b = b'"
  then show "DJ_oracle self output b = DJ_oracle self output' b'"
    using assms(1,2) by (simp add: DJ_oracle_balanced)
qed

lemma foldl_flips_cong:
  assumes "\<forall>i\<in>set qs. (flips i > 1 / 2) = (flips' i > (1 / 2 :: real))"
  shows "foldl (\<lambda>c i. if flips i > 1 / 2 then c @ [g i] else c) c qs
       = foldl (\<lambda>c i. if flips' i > 1 / 2 then c @ [g i] else c) c qs"
  using assms by (induction qs arbitrary: c) simp_all

lemma Simon_oracle_flips:
  assumes "\<forall>i<simon_n self. (flips i > 1 / 2) = (flips' i > 1 / 2)"
  shows "Simon_oracle self circuit permutation flips = Simon_oracle self circuit permutation flips'"
proof -
  have eq: "foldl (\<lambda>c i. if flips i > 1 / 2 then c @ [Gate_x (int (simon_n self + i))] else c) c [0..<simon_n self]
      = foldl (\<lambda>c i. if flips' i > 1 / 2 then c @ [Gate_x (int (simon_n self + i))] else c) c [0..<simon_n self]"
    for c
    by (rule foldl_flips_cong) (use assms in simp)
  show ?thesis unfolding Simon_oracle_def Let_def eq ..
qed


lemma Simon_oracle_11_identity:
  "Simon_oracle (Simon_init ''11'') [] [0, Suc 0] flips =
     Some (Inr (foldl (\<lambda>c i. if flips i > 1 / 2 then c @ [Gate_x (int (2 + i))] else c)
                  [Gate_cx 0 2, Gate_cx 1 3, Gate_cx 1 2, Gate_cx 1 3] [0..<2]))"
  by (simp add: Simon_oracle_def Simon_init_def Let_def py_range_def py_enumerate_def py_rfind_def
      permute_loop_unfold permute_step_def py_getitem_def upt_rec)

lemma Simon_oracle_11_swap:
  "Simon_oracle (Simon_init ''11'') [] [Suc 0, 0] flips =
     Some (Inr (foldl (\<lambda>c i. if flips i > 1 / 2 then c @ [Gate_x (int (2 + i))] else c)
                  [Gate_cx 0 2, Gate_cx 1 3, Gate_cx 1 2, Gate_cx 1 3, Gate_swap 2 3] [0..<2]))"
  by (simp add: Simon_oracle_def Simon_init_def Let_def py_range_def py_enumerate_def py_rfind_def
      permute_loop_unfold permute_step_def py_getitem_def upt_rec)

text \<open>
  Claim C4 says that no operation reads global state, so that two runs of \<^verbatim>\<open>oracle()\<close>
  on equal instances with equal arguments produce identical gate sequences. Both oracles
  draw from numpy's global random generator, and the gates depend on what is drawn: the
  constant Deutsch-Jozsa oracle on two bits is empty when 0 is drawn and one X gate when
  1 is drawn; the balanced one places its X gates by the number drawn; Simon's oracle
  for the bit string 11 ends in a swap or not, by the permutation drawn.
\<close>

theorem oracle_draws_counterexample:
  "DJ_oracle \<lparr>dj_type = ''constant'', dj_num_bits = 2\<rparr> 0 1 = Inr []
   \<and> DJ_oracle \<lparr>dj_type = ''constant'', dj_num_bits = 2\<rparr> 1 1 = Inr [Gate_x 2]
   \<and> DJ_oracle \<lparr>dj_type = ''balanced'', dj_num_bits = 2\<rparr> 0 1
        = Inr [Gate_x 1, Gate_cx 0 2, Gate_cx 1 2, Gate_x 1]
   \<and> DJ_oracle \<lparr>dj_type = ''balanced'', dj_num_bits = 2\<rparr> 0 2
        = Inr [Gate_x 0, Gate_cx 0 2, Gate_cx 1 2, Gate_x 0]
   \<and> Simon_oracle (Simon_init ''11'') [] [0, 1] no_flips
        = Some (Inr [Gate_cx 0 2, Gate_cx 1 3, Gate_cx 1 2, Gate_cx 1 3])
   \<and> Simon_oracle (Simon_init ''11'') [] [1, 0] no_flips
        = Some (Inr [Gate_cx 0 2, Gate_cx 1 3, Gate_cx 1 2, Gate_cx 1 3, Gate_swap 2 3])
   \<and> DJ_oracle \<lparr>dj_type = ''constant'', dj_num_bits = 2\<rparr> 0 1
        \<noteq> DJ_oracle \<lparr>dj_type = ''constant'', dj_num_bits = 2\<rparr> 1 1
   \<and> Simon_oracle (Simon_init ''11'') [] [0, 1] no_flips
        \<noteq> Simon_oracle (Simon_init ''11'') [] [1, 0] no_flips"
proof -
  have f: "py_format_bin (Suc 0) 2 = ''01''" "py_format_bin 2 2 = ''10''"
    by (simp_all add: py_format_bin_def bin_digits.simps)
  show ?thesis
    by (simp add: DJ_oracle_constant DJ_oracle_balanced f x_gates_def py_range_def upt_rec
        Simon_oracle_11_identity Simon_oracle_11_swap no_flips_def)
qed

text \<open>
  Claim C4 as amended: \<^verbatim>\<open>oracle()\<close> reads numpy's global random generator, and its gate
  sequence is determined by the instance, the arguments and the values drawn. Two runs of
  \<^verbatim>\<open>DeutschJozsa.oracle\<close> on one instance give identical gate sequences exactly when
  the draws agree: for the constant oracle when both or neither drew 1, for the balanced
  oracle (\<open>num_bits \<ge> 1\<close>, draws below \<open>2\<^sup>n\<close>) when both drew the same number. Two runs
  of \<^verbatim>\<open>SimonProblem.oracle\<close> on one instance and circuit, with the same permutation
  drawn and the same flips decided, give the identical result.
\<close>

theorem oracle_determined_by_draws:
  "(dj_type self = ''constant'' \<longrightarrow>
      (DJ_oracle self out b = DJ_oracle self out' b') = ((out = 1) = (out' = 1)))
   \<and> (dj_type self = ''balanced'' \<and> 0 < dj_num_bits self
        \<and> b < 2 ^ nat (dj_num_bits self) \<and> b' < 2 ^ nat (dj_num_bits self) \<longrightarrow>
      (DJ_oracle self out b = DJ_oracle self out' b') = (b = b'))
   \<and> ((\<forall>i<simon_n simon. (flips i > 1 / 2) = (flips' i > 1 / 2)) \<longrightarrow>
      Simon_oracle simon circuit permutation flips = Simon_oracle simon circuit permutation flips')"
  using DJ_oracle_balanced_inj [of self b b' out out'] Simon_oracle_flips [of simon flips flips']
  by (auto simp: DJ_oracle_constant)

theorem oracle_determined_by_draws_witness:
  "DJ_oracle \<lparr>dj_type = ''constant'', dj_num_bits = 2\<rparr> 0 1
      \<noteq> DJ_oracle \<lparr>dj_type = ''constant'', dj_num_bits = 2\<rparr> 1 1
   \<and> DJ_oracle \<lparr>dj_type = ''balanced'', dj_num_bits = 2\<rparr> 0 1
      \<noteq> DJ_oracle \<lparr>dj_type = ''balanced'', dj_num_bits = 2\<rparr> 0 2
   \<and> DJ_oracle \<lparr>dj_type = ''balanced'', dj_num_bits = 2\<rparr> 0 3
      = DJ_oracle \<lparr>dj_type = ''balanced'', dj_num_bits = 2\<rparr> 1 3
   \<and> Simon_oracle (Simon_init ''11'') [] [1, 0] no_flips
      = Simon_oracle (Simon_init ''11'') [] [1, 0] quarter_flips"
  using
    oracle_determined_by_draws [where self = "\<lparr>dj_type = ''constant'', dj_num_bits = 2\<rparr>"
      and out = 0 and out' = 1 and b = 1 and b' = 1]
    oracle_determined_by_draws [where self = "\<lparr>dj_type = ''balanced'', dj_num_bits = 2\<rparr>"
      and out = 0 and out' = 0 and b = 1 and b' = 2]
    oracle_determined_by_draws [where self = "\<lparr>dj_type = ''balanced'', dj_num_bits = 2\<rparr>"
      and out = 0 and out' = 1 and b = 3 and b' = 3]
    oracle_determined_by_draws [where simon = "Simon_init ''11''" and flips = no_flips
      and flips' = quarter_flips and circuit = "[]" and permutation = "[1, 0]"]
  by (simp add: no_flips_def quarter_flips_def numeral_2_eq_2 less_Suc_eq)


section \<open>State held by the instances\<close>


lemma build_new_circuit_error:
  "build_new_circuit h (Inl e) = (h @ [[]], Inl e)"
  by (simp add: build_new_circuit_def heap_new_def)






end
